theory Spec2Isabelle
  imports Main "HOL-Library.Word"
begin

section \<open>The sample program \<open>input_examples/sample.cpp\<close>\<close>

text \<open>
  The program reads one \<open>int\<close>, stores three squares in a local array, prints a
  message in a counting loop, branches on a threshold and prints the array.

  An \<open>int\<close> is modelled as a 32-bit two's-complement word: \<open>+\<close> and \<open>*\<close> wrap
  around, \<open>sint\<close> reads the signed value, and the comparisons of the source are
  comparisons of signed values.  (The C++ standard leaves signed overflow undefined;
  the usual platforms wrap, and that is the behaviour embedded here.)
\<close>

type_synonym int32 = "32 word"

subsection \<open>\<open>square\<close>\<close>

definition square :: "int32 \<Rightarrow> int32" where
  "square x = x * x"

subsection \<open>Program state\<close>

text \<open>
  Standard input and output are a trace of events in program order: every \<open><<\<close> on
  \<open>cout\<close> appends one \<open>Cout\<close> event carrying the characters written, the \<open>>>\<close> on
  \<open>cin\<close> appends one \<open>Cin\<close> event carrying the value stored in \<open>b\<close>.
  The field \<open>acc\<close> logs every subscript applied to \<open>arr\<close>, in program order.
  \<open>endl\<close> writes a newline (its flush leaves the text as it is), and the text on
  standard output is the concatenation of what the \<open>Cout\<close> events carry.
\<close>

datatype io_event = Cout string | Cin int32

datatype access = Wr int32 | Rd int32

datatype error = OutOfBounds

record state =
  a :: int32
  arr :: "int32 list"
  msg :: string
  io :: "io_event list"
  acc :: "access list"

definition cout :: "string \<Rightarrow> state \<Rightarrow> state" where
  "cout t s = s\<lparr>io := io s @ [Cout t]\<rparr>"

definition cin :: "int32 \<Rightarrow> state \<Rightarrow> state" where
  "cin v s = s\<lparr>io := io s @ [Cin v]\<rparr>"

definition endl :: string where
  "endl = [CHR 0x0A]"

definition stdout_text :: "io_event list \<Rightarrow> string" where
  "stdout_text tr = concat (map (\<lambda>e. case e of Cout t \<Rightarrow> t | Cin v \<Rightarrow> []) tr)"

text \<open>
  \<open>cout << n\<close> for an \<open>int\<close> with the stream's default flags: the decimal digits of
  the value, most significant first, after a minus sign when it is negative.
\<close>

fun dec :: "nat \<Rightarrow> string" where
  "dec n = (if n < 10 then [''0123456789'' ! n]
            else dec (n div 10) @ [''0123456789'' ! (n mod 10)])"

declare dec.simps [simp del]

definition show_int :: "int32 \<Rightarrow> string" where
  "show_int x = (if sint x < 0 then CHR ''-'' # dec (nat (- sint x)) else dec (nat (sint x)))"

subsection \<open>Subscripting \<open>arr\<close>\<close>

text \<open>
  \<open>arr[i] = v\<close> and reading \<open>arr[i]\<close>.  A subscript outside the array is undefined
  behaviour in the source and the error \<open>OutOfBounds\<close> here.
\<close>

definition arr_write :: "int32 \<Rightarrow> int32 \<Rightarrow> state \<Rightarrow> error + state" where
  "arr_write i v s =
     (if 0 \<le> sint i \<and> sint i < int (length (arr s))
      then Inr (s\<lparr>arr := (arr s)[nat (sint i) := v], acc := acc s @ [Wr i]\<rparr>)
      else Inl OutOfBounds)"

definition arr_read :: "int32 \<Rightarrow> state \<Rightarrow> error + (int32 \<times> state)" where
  "arr_read i s =
     (if 0 \<le> sint i \<and> sint i < int (length (arr s))
      then Inr (arr s ! nat (sint i), s\<lparr>acc := acc s @ [Rd i]\<rparr>)
      else Inl OutOfBounds)"

subsection \<open>The loops and the branch of \<open>main\<close>\<close>

text \<open>
  The fill loop: \<open>for (int i = 0; i < 3; i++) arr[i] = square(i + b);\<close>, entered with
  the current value of \<open>i\<close>.
\<close>

function fill_loop :: "int32 \<Rightarrow> int32 \<Rightarrow> state \<Rightarrow> error + state" where
  "fill_loop b i s =
     (if sint i < 3
      then (case arr_write i (square (i + b)) s of
              Inl e \<Rightarrow> Inl e
            | Inr s' \<Rightarrow> fill_loop b (i + 1) s')
      else Inr s)"
  by pat_completeness auto
termination
proof (relation "measure (\<lambda>(b, i, s). nat (3 - sint i))")
  fix b i :: int32 and s s' :: state
  assume h: "sint i < 3"
  have "- (2 ^ 31) \<le> sint i"
    using sint_ge [of i] by simp
  then have "sint (i + 1) = sint i + 1"
    using h by (simp add: sint_word_ariths signed_take_bit_int_eq_self)
  then show "((b, i + 1, s'), (b, i, s)) \<in> measure (\<lambda>(b, i, s). nat (3 - sint i))"
    using h by simp
qed simp

declare fill_loop.simps [simp del]

text \<open>
  The message loop: \<open>while (a < 10) { cout << msg << " " << a << endl; a++; }\<close>.
\<close>

definition while_cond :: "state \<Rightarrow> bool" where
  "while_cond s = (sint (a s) < 10)"

definition while_body :: "state \<Rightarrow> state" where
  "while_body s =
     (let s1 = cout endl (cout (show_int (a s)) (cout '' '' (cout (msg s) s)))
      in s1\<lparr>a := a s1 + 1\<rparr>)"

function while_loop :: "state \<Rightarrow> state" where
  "while_loop s = (if while_cond s then while_loop (while_body s) else s)"
  by pat_completeness auto
termination
proof (relation "measure (\<lambda>s. nat (10 - sint (a s)))")
  fix s :: state
  assume "while_cond s"
  then have h: "sint (a s) < 10"
    by (simp add: while_cond_def)
  have "- (2 ^ 31) \<le> sint (a s)"
    using sint_ge [of "a s"] by simp
  then have "sint (a s + 1) = sint (a s) + 1"
    using h by (simp add: sint_word_ariths signed_take_bit_int_eq_self)
  then show "(while_body s, s) \<in> measure (\<lambda>s. nat (10 - sint (a s)))"
    using h by (simp add: while_body_def cout_def)
qed simp

declare while_loop.simps [simp del]

text \<open>The threshold branch: \<open>if (b > 10) ... else ...\<close>.\<close>

definition branch :: "int32 \<Rightarrow> state \<Rightarrow> state" where
  "branch b s =
     (if 10 < sint b then cout endl (cout ''Big number!'' s)
      else cout endl (cout ''Small number!'' s))"

text \<open>
  The printing loop: \<open>for (int i = 0; i < 3; i++) cout << arr[i] << " ";\<close>, entered
  with the current value of \<open>i\<close>.
\<close>

function print_loop :: "int32 \<Rightarrow> state \<Rightarrow> error + state" where
  "print_loop i s =
     (if sint i < 3
      then (case arr_read i s of
              Inl e \<Rightarrow> Inl e
            | Inr (v, s') \<Rightarrow> print_loop (i + 1) (cout '' '' (cout (show_int v) s')))
      else Inr s)"
  by pat_completeness auto
termination
proof (relation "measure (\<lambda>(i, s). nat (3 - sint i))")
  fix i :: int32 and s s' :: state
  assume h: "sint i < 3"
  have "- (2 ^ 31) \<le> sint i"
    using sint_ge [of i] by simp
  then have "sint (i + 1) = sint i + 1"
    using h by (simp add: sint_word_ariths signed_take_bit_int_eq_self)
  then show "((i + 1, cout '' '' (cout (show_int v) s')), (i, s)) \<in> measure (\<lambda>(i, s). nat (3 - sint i))"
    for v
    using h by simp
qed simp

declare print_loop.simps [simp del]

subsection \<open>\<open>main\<close>\<close>

text \<open>
  The declarations at the head of \<open>main\<close>.  \<open>arr\<close> is declared without an
  initialiser: its three cells hold indeterminate values, the parameter of \<open>init\<close>.
\<close>

definition init :: "int32 \<times> int32 \<times> int32 \<Rightarrow> state" where
  "init junk = (case junk of (j0, j1, j2) \<Rightarrow>
     \<lparr>a = 5, arr = [j0, j1, j2], msg = ''Hello'', io = [], acc = []\<rparr>)"

text \<open>
  \<open>main\<close> in four stretches, each continuing the one before: up to the end of the fill
  loop, of the message loop, of the branch, and of the printing of the array; then
  \<open>return 0\<close>.  The argument \<open>b\<close> is the value that \<open>cin >> b\<close> stores.
\<close>

definition main_fill :: "int32 \<times> int32 \<times> int32 \<Rightarrow> int32 \<Rightarrow> error + state" where
  "main_fill junk b = fill_loop b 0 (cin b (cout ''Enter a number: '' (init junk)))"

definition main_while :: "int32 \<times> int32 \<times> int32 \<Rightarrow> int32 \<Rightarrow> error + state" where
  "main_while junk b = map_sum id while_loop (main_fill junk b)"

definition main_branch :: "int32 \<times> int32 \<times> int32 \<Rightarrow> int32 \<Rightarrow> error + state" where
  "main_branch junk b = map_sum id (branch b) (main_while junk b)"

definition main_print :: "int32 \<times> int32 \<times> int32 \<Rightarrow> int32 \<Rightarrow> error + state" where
  "main_print junk b =
     (case main_branch junk b of
        Inl e \<Rightarrow> Inl e
      | Inr s \<Rightarrow> map_sum id (cout endl) (print_loop 0 (cout ''Array values: '' s)))"

definition main :: "int32 \<times> int32 \<times> int32 \<Rightarrow> int32 \<Rightarrow> error + (state \<times> int32)" where
  "main junk b = map_sum id (\<lambda>s. (s, 0)) (main_print junk b)"

section \<open>Evaluating the program\<close>

subsection \<open>One turn of each loop\<close>

lemma dec_digit: "n < 10 \<Longrightarrow> dec n = [''0123456789'' ! n]"
  by (simp add: dec.simps)

lemma fill_loop_exit: "\<not> sint i < 3 \<Longrightarrow> fill_loop b i s = Inr s"
  by (simp add: fill_loop.simps [of b i])

lemma fill_loop_step:
  "0 \<le> sint i \<Longrightarrow> sint i < 3 \<Longrightarrow> length (arr s) = 3 \<Longrightarrow>
   fill_loop b i s =
     fill_loop b (i + 1) (s\<lparr>arr := (arr s)[nat (sint i) := square (i + b)], acc := acc s @ [Wr i]\<rparr>)"
  by (simp add: fill_loop.simps [of b i] arr_write_def)

lemma print_loop_exit: "\<not> sint i < 3 \<Longrightarrow> print_loop i s = Inr s"
  by (simp add: print_loop.simps [of i])

lemma print_loop_step:
  "0 \<le> sint i \<Longrightarrow> sint i < 3 \<Longrightarrow> length (arr s) = 3 \<Longrightarrow>
   print_loop i s =
     print_loop (i + 1) (cout '' '' (cout (show_int (arr s ! nat (sint i))) (s\<lparr>acc := acc s @ [Rd i]\<rparr>)))"
  by (simp add: print_loop.simps [of i] arr_read_def)

lemma while_loop_exit: "\<not> while_cond s \<Longrightarrow> while_loop s = s"
  by (simp add: while_loop.simps [of s])

lemma while_loop_step: "while_cond s \<Longrightarrow> while_loop s = while_loop (while_body s)"
  by (simp add: while_loop.simps [of s])

lemma fill_from_0:
  "length (arr s) = 3 \<Longrightarrow> fill_loop b 0 s =
     Inr (s\<lparr>arr := [square b, square (1 + b), square (2 + b)], acc := acc s @ [Wr 0, Wr 1, Wr 2]\<rparr>)"
proof -
  assume len: "length (arr s) = 3"
  then obtain x y z where xs: "arr s = [x, y, z]"
    by (cases "arr s"; simp; rename_tac u us; case_tac us; simp; rename_tac v vs; case_tac vs; simp)
  let ?s1 = "s\<lparr>arr := [square b, y, z], acc := acc s @ [Wr 0]\<rparr>"
  let ?s2 = "s\<lparr>arr := [square b, square (1 + b), z], acc := acc s @ [Wr 0, Wr 1]\<rparr>"
  let ?s3 = "s\<lparr>arr := [square b, square (1 + b), square (2 + b)], acc := acc s @ [Wr 0, Wr 1, Wr 2]\<rparr>"
  have "fill_loop b 0 s = fill_loop b 1 ?s1"
    using fill_loop_step [of 0 s b] xs by simp
  also have "\<dots> = fill_loop b 2 ?s2"
    using fill_loop_step [of 1 ?s1 b] by simp
  also have "\<dots> = fill_loop b 3 ?s3"
    using fill_loop_step [of 2 ?s2 b] by simp
  also have "\<dots> = Inr ?s3"
    by (simp add: fill_loop_exit)
  finally show ?thesis .
qed

subsection \<open>The loops from their entry states\<close>

lemma show_digits:
  "show_int 5 = ''5''" "show_int 6 = ''6''" "show_int 7 = ''7''" "show_int 8 = ''8''"
  "show_int 9 = ''9''"
  by (simp_all add: show_int_def dec_digit)

lemma while_body_eq:
  "while_body s =
     s\<lparr>a := a s + 1,
       io := io s @ [Cout (msg s), Cout '' '', Cout (show_int (a s)), Cout endl]\<rparr>"
  by (simp add: while_body_def cout_def)

lemma while_iter_1:
  "a s = 5 \<Longrightarrow> while_body s =
     s\<lparr>a := 6, io := io s @ [Cout (msg s), Cout '' '', Cout ''5'', Cout endl]\<rparr>"
  by (simp add: while_body_eq show_digits)

lemma while_iter_2:
  "a s = 5 \<Longrightarrow> (while_body ^^ 2) s =
     s\<lparr>a := 7, io := io s @ [Cout (msg s), Cout '' '', Cout ''5'', Cout endl,
                              Cout (msg s), Cout '' '', Cout ''6'', Cout endl]\<rparr>"
  by (simp add: numeral_2_eq_2 while_iter_1) (simp add: while_body_eq show_digits)

lemma while_iter_3:
  "a s = 5 \<Longrightarrow> (while_body ^^ 3) s =
     s\<lparr>a := 8, io := io s @ [Cout (msg s), Cout '' '', Cout ''5'', Cout endl,
                              Cout (msg s), Cout '' '', Cout ''6'', Cout endl,
                              Cout (msg s), Cout '' '', Cout ''7'', Cout endl]\<rparr>"
  using while_iter_2 [of s] by (simp add: numeral_3_eq_3 numeral_2_eq_2 while_body_eq show_digits)

lemma while_iter_4:
  "a s = 5 \<Longrightarrow> (while_body ^^ 4) s =
     s\<lparr>a := 9, io := io s @ [Cout (msg s), Cout '' '', Cout ''5'', Cout endl,
                              Cout (msg s), Cout '' '', Cout ''6'', Cout endl,
                              Cout (msg s), Cout '' '', Cout ''7'', Cout endl,
                              Cout (msg s), Cout '' '', Cout ''8'', Cout endl]\<rparr>"
proof -
  assume h: "a s = 5"
  have "(while_body ^^ 4) s = while_body ((while_body ^^ 3) s)"
    by (simp add: eval_nat_numeral)
  then show ?thesis
    by (simp add: while_iter_3 [OF h] while_body_eq show_digits)
qed

lemma while_iter_5:
  "a s = 5 \<Longrightarrow> (while_body ^^ 5) s =
     s\<lparr>a := 10, io := io s @ [Cout (msg s), Cout '' '', Cout ''5'', Cout endl,
                               Cout (msg s), Cout '' '', Cout ''6'', Cout endl,
                               Cout (msg s), Cout '' '', Cout ''7'', Cout endl,
                               Cout (msg s), Cout '' '', Cout ''8'', Cout endl,
                               Cout (msg s), Cout '' '', Cout ''9'', Cout endl]\<rparr>"
proof -
  assume h: "a s = 5"
  have "(while_body ^^ 5) s = while_body ((while_body ^^ 4) s)"
    by (simp add: eval_nat_numeral)
  then show ?thesis
    by (simp add: while_iter_4 [OF h] while_body_eq show_digits)
qed

lemma while_conds:
  assumes h: "a s = 5"
  shows "while_cond s" "while_cond (while_body s)" "while_cond ((while_body ^^ 2) s)"
    "while_cond ((while_body ^^ 3) s)" "while_cond ((while_body ^^ 4) s)"
    "\<not> while_cond ((while_body ^^ 5) s)"
  by (simp_all add: while_cond_def h while_iter_1 while_iter_2 while_iter_3 while_iter_4 while_iter_5)

lemma while_loop_5: "a s = 5 \<Longrightarrow> while_loop s = (while_body ^^ 5) s"
proof -
  assume h: "a s = 5"
  have "while_loop s = while_loop (while_body s)"
    using while_conds(1) [OF h] by (rule while_loop_step)
  also have "\<dots> = while_loop ((while_body ^^ 2) s)"
    using while_loop_step [OF while_conds(2) [OF h]] by (simp add: eval_nat_numeral)
  also have "\<dots> = while_loop ((while_body ^^ 3) s)"
    using while_loop_step [OF while_conds(3) [OF h]] by (simp add: eval_nat_numeral)
  also have "\<dots> = while_loop ((while_body ^^ 4) s)"
    using while_loop_step [OF while_conds(4) [OF h]] by (simp add: eval_nat_numeral)
  also have "\<dots> = while_loop ((while_body ^^ 5) s)"
    using while_loop_step [OF while_conds(5) [OF h]] by (simp add: eval_nat_numeral)
  also have "\<dots> = (while_body ^^ 5) s"
    using while_conds(6) [OF h] by (rule while_loop_exit)
  finally show ?thesis .
qed

lemma print_from_0:
  "print_loop 0 \<lparr>a = x, arr = [p, q, r], msg = m, io = tr, acc = lg\<rparr> =
     Inr \<lparr>a = x, arr = [p, q, r], msg = m,
          io = tr @ [Cout (show_int p), Cout '' '', Cout (show_int q), Cout '' '',
                     Cout (show_int r), Cout '' ''],
          acc = lg @ [Rd 0, Rd 1, Rd 2]\<rparr>"
proof -
  let ?s0 = "\<lparr>a = x, arr = [p, q, r], msg = m, io = tr, acc = lg\<rparr>"
  let ?s1 = "\<lparr>a = x, arr = [p, q, r], msg = m,
              io = tr @ [Cout (show_int p), Cout '' ''], acc = lg @ [Rd 0]\<rparr>"
  let ?s2 = "\<lparr>a = x, arr = [p, q, r], msg = m,
              io = tr @ [Cout (show_int p), Cout '' '', Cout (show_int q), Cout '' ''],
              acc = lg @ [Rd 0, Rd 1]\<rparr>"
  let ?s3 = "\<lparr>a = x, arr = [p, q, r], msg = m,
              io = tr @ [Cout (show_int p), Cout '' '', Cout (show_int q), Cout '' '',
                         Cout (show_int r), Cout '' ''],
              acc = lg @ [Rd 0, Rd 1, Rd 2]\<rparr>"
  have "print_loop 0 ?s0 = print_loop 1 ?s1"
    using print_loop_step [of 0 ?s0] by (simp add: cout_def)
  also have "\<dots> = print_loop 2 ?s2"
    using print_loop_step [of 1 ?s1] by (simp add: cout_def)
  also have "\<dots> = print_loop 3 ?s3"
    using print_loop_step [of 2 ?s2] by (simp add: cout_def)
  also have "\<dots> = Inr ?s3"
    by (simp add: print_loop_exit)
  finally show ?thesis .
qed

lemma main_fill_eq:
  "main_fill (j0, j1, j2) b =
     Inr \<lparr>a = 5, arr = [square b, square (1 + b), square (2 + b)], msg = ''Hello'',
          io = [Cout ''Enter a number: '', Cin b], acc = [Wr 0, Wr 1, Wr 2]\<rparr>"
  by (simp add: main_fill_def init_def cout_def cin_def fill_from_0)

lemma main_while_eq:
  "main_while (j0, j1, j2) b =
     Inr \<lparr>a = 10, arr = [square b, square (1 + b), square (2 + b)], msg = ''Hello'',
          io = [Cout ''Enter a number: '', Cin b,
                Cout ''Hello'', Cout '' '', Cout ''5'', Cout endl,
                Cout ''Hello'', Cout '' '', Cout ''6'', Cout endl,
                Cout ''Hello'', Cout '' '', Cout ''7'', Cout endl,
                Cout ''Hello'', Cout '' '', Cout ''8'', Cout endl,
                Cout ''Hello'', Cout '' '', Cout ''9'', Cout endl],
          acc = [Wr 0, Wr 1, Wr 2]\<rparr>"
  by (simp add: main_while_def main_fill_eq while_loop_5 while_iter_5)

lemma main_branch_eq:
  "main_branch (j0, j1, j2) b =
     Inr \<lparr>a = 10, arr = [square b, square (1 + b), square (2 + b)], msg = ''Hello'',
          io = [Cout ''Enter a number: '', Cin b,
                Cout ''Hello'', Cout '' '', Cout ''5'', Cout endl,
                Cout ''Hello'', Cout '' '', Cout ''6'', Cout endl,
                Cout ''Hello'', Cout '' '', Cout ''7'', Cout endl,
                Cout ''Hello'', Cout '' '', Cout ''8'', Cout endl,
                Cout ''Hello'', Cout '' '', Cout ''9'', Cout endl,
                Cout (if 10 < sint b then ''Big number!'' else ''Small number!''), Cout endl],
          acc = [Wr 0, Wr 1, Wr 2]\<rparr>"
  by (simp add: main_branch_def main_while_eq branch_def cout_def)

lemma main_eq:
  "main (j0, j1, j2) b =
     Inr (\<lparr>a = 10, arr = [square b, square (1 + b), square (2 + b)], msg = ''Hello'',
          io = [Cout ''Enter a number: '', Cin b,
                Cout ''Hello'', Cout '' '', Cout ''5'', Cout endl,
                Cout ''Hello'', Cout '' '', Cout ''6'', Cout endl,
                Cout ''Hello'', Cout '' '', Cout ''7'', Cout endl,
                Cout ''Hello'', Cout '' '', Cout ''8'', Cout endl,
                Cout ''Hello'', Cout '' '', Cout ''9'', Cout endl,
                Cout (if 10 < sint b then ''Big number!'' else ''Small number!''), Cout endl,
                Cout ''Array values: '',
                Cout (show_int (square b)), Cout '' '',
                Cout (show_int (square (1 + b))), Cout '' '',
                Cout (show_int (square (2 + b))), Cout '' '',
                Cout endl],
          acc = [Wr 0, Wr 1, Wr 2, Rd 0, Rd 1, Rd 2]\<rparr>, 0)"
  by (simp add: main_def main_print_def main_branch_eq cout_def print_from_0)

subsection \<open>The characters of a printed \<open>int\<close>\<close>

lemma digit_mem: "k < 10 \<Longrightarrow> ''0123456789'' ! k \<in> set ''0123456789''" for k :: nat
  by (rule nth_mem) simp

lemma dec_chars: "dec n \<noteq> [] \<and> set (dec n) \<subseteq> set ''0123456789''"
proof (induction n rule: dec.induct)
  case (1 n)
  show ?case
  proof (cases "n < 10")
    case True
    have "dec n = [''0123456789'' ! n]" using True by (subst dec.simps) simp
    then show ?thesis using digit_mem [OF True] by (simp only: set_simps list.simps) blast
  next
    case False
    have m: "n mod 10 < 10" by simp
    have e: "dec n = dec (n div 10) @ [''0123456789'' ! (n mod 10)]"
      using False by (subst dec.simps) simp
    have ih: "dec (n div 10) \<noteq> [] \<and> set (dec (n div 10)) \<subseteq> set ''0123456789''"
      using "1" False by blast
    show ?thesis unfolding e using ih digit_mem [OF m]
      by (simp only: set_append set_simps) blast
  qed
qed




lemma show_int_chars: "show_int x \<noteq> [] \<and> set (show_int x) \<subseteq> insert CHR ''-'' (set ''0123456789'')"
proof (cases "sint x < 0")
  case True
  then have e: "show_int x = CHR ''-'' # dec (nat (- sint x))"
    by (simp only: show_int_def if_True)
  have d: "set (dec (nat (- sint x))) \<subseteq> set ''0123456789''"
    using dec_chars [of "nat (- sint x)"] by (rule conjunct2)
  have "set (CHR ''-'' # dec (nat (- sint x))) = insert CHR ''-'' (set (dec (nat (- sint x))))"
    by (rule list.set(2))
  also have "\<dots> \<subseteq> insert CHR ''-'' (set ''0123456789'')"
    using d by (rule insert_mono)
  finally show ?thesis unfolding e using list.distinct(2) by (rule conjI [rotated])
next
  case False
  then have e: "show_int x = dec (nat (sint x))"
    by (simp only: show_int_def if_False)
  have "set (dec (nat (sint x))) \<subseteq> insert CHR ''-'' (set ''0123456789'')"
    using conjunct2 [OF dec_chars [of "nat (sint x)"]] by (rule subset_insertI2)
  then show ?thesis unfolding e using conjunct1 [OF dec_chars [of "nat (sint x)"]] by (rule conjI [rotated])
qed


lemma sep_not_digit:
  "CHR '' '' \<notin> insert CHR ''-'' (set ''0123456789'')"
  "CHR 0x0A \<notin> insert CHR ''-'' (set ''0123456789'')"
  by simp_all

lemma show_int_no_sep: "CHR '' '' \<notin> set (show_int x) \<and> CHR 0x0A \<notin> set (show_int x)"
  using show_int_chars [of x] sep_not_digit by (meson subsetD)

subsection \<open>The counter is left alone by the printing loop\<close>

lemma print_loop_frame:
  "a (case print_loop i s of Inl e \<Rightarrow> s | Inr s' \<Rightarrow> s') = a s"
proof (induction i s rule: print_loop.induct)
  case (1 i s)
  show ?case
  proof (cases "sint i < 3 \<and> 0 \<le> sint i \<and> sint i < int (length (arr s))")
    case True
    let ?s' = "s\<lparr>acc := acc s @ [Rd i]\<rparr>"
    let ?v = "arr s ! nat (sint i)"
    have r: "arr_read i s = Inr (?v, ?s')"
      using True by (simp add: arr_read_def)
    have "a (case print_loop (i + 1) (cout '' '' (cout (show_int ?v) ?s')) of
              Inl e \<Rightarrow> cout '' '' (cout (show_int ?v) ?s') | Inr s' \<Rightarrow> s') =
          a (cout '' '' (cout (show_int ?v) ?s'))"
      using True r by (intro "1.IH") simp_all
    then show ?thesis
      using True r by (subst print_loop.simps) (simp add: cout_def split: sum.splits)
  next
    case False
    then show ?thesis
      by (subst print_loop.simps) (auto simp: arr_read_def)
  qed
qed

subsection \<open>The run on the input 3\<close>

lemma show_int_samples:
  "show_int 9 = ''9''" "show_int 16 = ''16''" "show_int 25 = ''25''"
  by (simp_all add: show_int_def dec.simps [of 16] dec.simps [of 25] dec_digit)

lemma main_at_3:
  "main (1, 2, 3) 3 =
     Inr (\<lparr>a = 10, arr = [9, 16, 25], msg = ''Hello'',
          io = [Cout ''Enter a number: '', Cin 3,
                Cout ''Hello'', Cout '' '', Cout ''5'', Cout endl,
                Cout ''Hello'', Cout '' '', Cout ''6'', Cout endl,
                Cout ''Hello'', Cout '' '', Cout ''7'', Cout endl,
                Cout ''Hello'', Cout '' '', Cout ''8'', Cout endl,
                Cout ''Hello'', Cout '' '', Cout ''9'', Cout endl,
                Cout ''Small number!'', Cout endl,
                Cout ''Array values: '',
                Cout ''9'', Cout '' '', Cout ''16'', Cout '' '', Cout ''25'', Cout '' '',
                Cout endl],
          acc = [Wr 0, Wr 1, Wr 2, Rd 0, Rd 1, Rd 2]\<rparr>, 0)"
  by (simp add: main_eq square_def show_int_samples)

section \<open>The fill loop\<close>

text \<open>
  C1.  For every input \<open>b\<close> (and whatever the array held before), the fill loop ends
  normally and leaves \<open>arr[i] = square (i + b)\<close> for \<open>i = 0, 1, 2\<close>; for the input
  0 the array is \<open>[0, 1, 4]\<close> and for the input 3 it is \<open>[9, 16, 25]\<close>.
\<close>

theorem fill_loop_squares:
  "\<exists>s s0 s3.
     main_fill junk b = Inr s \<and> arr s = map (\<lambda>i. square (i + b)) [0, 1, 2] \<and>
     main_fill junk 0 = Inr s0 \<and> arr s0 = [0, 1, 4] \<and>
     main_fill junk 3 = Inr s3 \<and> arr s3 = [9, 16, 25]"
proof -
  obtain j0 j1 j2 where j: "junk = (j0, j1, j2)"
    by (cases junk) auto
  show ?thesis
    unfolding j main_fill_eq by (simp add: square_def)
qed

theorem fill_loop_squares_witness:
  "\<exists>s. main_fill (7, 8, 9) (- 2) = Inr s \<and> arr s = [4, 1, 0]"
  using fill_loop_squares [of "(7, 8, 9)" "- 2"] by (auto simp: square_def)

section \<open>The threshold branch\<close>

text \<open>
  C2.  In any state the branch appends exactly one line: \<open>Big number!\<close> when
  \<open>b > 10\<close> and \<open>Small number!\<close> otherwise, each followed by \<open>endl\<close>, and changes
  nothing else; the input 10 takes the second alternative.  In \<open>main\<close> the branch runs
  on the state that the message loop leaves.
\<close>

theorem branch_threshold:
  "(10 < sint b \<longrightarrow> branch b s = s\<lparr>io := io s @ [Cout ''Big number!'', Cout endl]\<rparr>) \<and>
   (\<not> 10 < sint b \<longrightarrow> branch b s = s\<lparr>io := io s @ [Cout ''Small number!'', Cout endl]\<rparr>) \<and>
   branch 10 s = s\<lparr>io := io s @ [Cout ''Small number!'', Cout endl]\<rparr> \<and>
   (\<exists>s1. main_while junk b = Inr s1 \<and> main_branch junk b = Inr (branch b s1))"
proof -
  obtain j0 j1 j2 where j: "junk = (j0, j1, j2)"
    by (cases junk) auto
  have "\<exists>s1. main_while junk b = Inr s1 \<and> main_branch junk b = Inr (branch b s1)"
    unfolding j main_branch_def main_while_eq by simp
  then show ?thesis
    by (simp add: branch_def cout_def)
qed

theorem branch_threshold_witness:
  "10 < sint (11 :: int32) \<and>
   stdout_text (io (branch 11 (init (0, 0, 0)))) = ''Big number!'' @ endl \<and>
   \<not> 10 < sint (10 :: int32) \<and>
   stdout_text (io (branch 10 (init (0, 0, 0)))) = ''Small number!'' @ endl \<and>
   \<not> 10 < sint (9 :: int32) \<and>
   stdout_text (io (branch 9 (init (0, 0, 0)))) = ''Small number!'' @ endl \<and>
   \<not> 10 < sint (- 1 :: int32) \<and>
   stdout_text (io (branch (- 1) (init (0, 0, 0)))) = ''Small number!'' @ endl"
  using branch_threshold [of 11 "init (0, 0, 0)" "(0, 0, 0)"]
    branch_threshold [of 10 "init (0, 0, 0)" "(0, 0, 0)"]
    branch_threshold [of 9 "init (0, 0, 0)" "(0, 0, 0)"]
    branch_threshold [of "- 1" "init (0, 0, 0)" "(0, 0, 0)"]
  by (simp add: init_def stdout_text_def)

section \<open>The message loop\<close>

text \<open>
  C3.  For every input \<open>b\<close> the message loop is entered with \<open>a = 5\<close>; its condition
  holds before each of the first five turns of its body and fails after the fifth, so
  the loop is five turns of the body; it writes the five lines \<open>Hello 5\<close> to
  \<open>Hello 9\<close> and nothing else, whatever \<open>b\<close> is.
\<close>

theorem while_loop_five_iterations:
  "\<exists>s0.
     main_fill junk b = Inr s0 \<and> main_while junk b = Inr (while_loop s0) \<and> a s0 = 5 \<and>
     map (\<lambda>k. while_cond ((while_body ^^ k) s0)) [0, 1, 2, 3, 4, 5] =
       [True, True, True, True, True, False] \<and>
     while_loop s0 = (while_body ^^ 5) s0 \<and>
     io (while_loop s0) = io s0 @
       [Cout ''Hello'', Cout '' '', Cout ''5'', Cout endl,
        Cout ''Hello'', Cout '' '', Cout ''6'', Cout endl,
        Cout ''Hello'', Cout '' '', Cout ''7'', Cout endl,
        Cout ''Hello'', Cout '' '', Cout ''8'', Cout endl,
        Cout ''Hello'', Cout '' '', Cout ''9'', Cout endl] \<and>
     stdout_text (io (while_loop s0)) = stdout_text (io s0) @
       ''Hello 5'' @ endl @ ''Hello 6'' @ endl @ ''Hello 7'' @ endl @ ''Hello 8'' @ endl @
       ''Hello 9'' @ endl"
proof -
  obtain j0 j1 j2 where j: "junk = (j0, j1, j2)"
    by (cases junk) auto
  let ?s0 = "\<lparr>a = 5, arr = [square b, square (1 + b), square (2 + b)], msg = ''Hello'',
          io = [Cout ''Enter a number: '', Cin b], acc = [Wr 0, Wr 1, Wr 2]\<rparr>"
  have f: "main_fill junk b = Inr ?s0"
    unfolding j by (rule main_fill_eq)
  have a5: "a ?s0 = 5"
    by simp
  have w: "main_while junk b = Inr (while_loop ?s0)"
    by (simp add: main_while_def f)
  have c: "map (\<lambda>k. while_cond ((while_body ^^ k) ?s0)) [0, 1, 2, 3, 4, 5] =
       [True, True, True, True, True, False]"
    using while_conds [OF a5] by simp
  have l: "while_loop ?s0 = (while_body ^^ 5) ?s0"
    using a5 by (rule while_loop_5)
  have i: "io ((while_body ^^ 5) ?s0) = io ?s0 @
       [Cout ''Hello'', Cout '' '', Cout ''5'', Cout endl,
        Cout ''Hello'', Cout '' '', Cout ''6'', Cout endl,
        Cout ''Hello'', Cout '' '', Cout ''7'', Cout endl,
        Cout ''Hello'', Cout '' '', Cout ''8'', Cout endl,
        Cout ''Hello'', Cout '' '', Cout ''9'', Cout endl]"
    by (simp add: while_iter_5 [OF a5])
  have t: "stdout_text (io ((while_body ^^ 5) ?s0)) = stdout_text (io ?s0) @
       ''Hello 5'' @ endl @ ''Hello 6'' @ endl @ ''Hello 7'' @ endl @ ''Hello 8'' @ endl @
       ''Hello 9'' @ endl"
    unfolding i by (simp add: stdout_text_def)
  show ?thesis
    using f w a5 c l i t by (intro exI [of _ ?s0] conjI) (simp_all only:)
qed

theorem while_loop_five_iterations_witness:
  "\<exists>s0. main_fill (1, 2, 3) 42 = Inr s0 \<and>
     stdout_text (io (while_loop s0)) =
       ''Enter a number: Hello 5'' @ endl @ ''Hello 6'' @ endl @ ''Hello 7'' @ endl @
       ''Hello 8'' @ endl @ ''Hello 9'' @ endl"
proof -
  obtain s0 where f: "main_fill (1, 2, 3) 42 = Inr s0"
    and t: "stdout_text (io (while_loop s0)) = stdout_text (io s0) @
       ''Hello 5'' @ endl @ ''Hello 6'' @ endl @ ''Hello 7'' @ endl @ ''Hello 8'' @ endl @
       ''Hello 9'' @ endl"
    using while_loop_five_iterations [of "(1, 2, 3)" 42] by blast
  have "stdout_text (io s0) = ''Enter a number: ''"
    using f by (auto simp: main_fill_eq stdout_text_def)
  then show ?thesis using f t by simp
qed

section \<open>\<open>square\<close> returns the product\<close>

text \<open>
  C4.  \<open>square\<close> is a function of its argument alone (it takes no state and returns
  none), and whenever the product of the signed value of \<open>x\<close> with itself is
  representable in an \<open>int\<close>, that is, below \<open>2^31\<close>, the signed value of \<open>square x\<close>
  is that product.
\<close>

theorem square_no_overflow:
  "sint x * sint x < 2 ^ 31 \<Longrightarrow> sint (square x) = sint x * sint x"
proof -
  assume hi: "sint x * sint x < 2 ^ 31"
  have "(0 :: int) \<le> sint x * sint x"
    by (rule zero_le_square)
  moreover have "- (2 ^ 31) \<le> (0 :: int)"
    by simp
  ultimately have lo: "- (2 ^ 31) \<le> sint x * sint x"
    by (rule order_trans [rotated])
  have "sint (square x) = signed_take_bit 31 (sint x * sint x)"
    by (simp add: square_def sint_word_ariths)
  also have "\<dots> = sint x * sint x"
    by (rule signed_take_bit_int_eq_self) (use lo hi in simp_all)
  finally show ?thesis .
qed

theorem square_no_overflow_witness:
  "sint (46340 :: int32) * sint (46340 :: int32) < 2 ^ 31 \<and>
   sint (square 46340) = 2147395600 \<and>
   sint (- 7 :: int32) * sint (- 7 :: int32) < 2 ^ 31 \<and>
   sint (square (- 7)) = 49"
  using square_no_overflow [of 46340] square_no_overflow [of "- 7"] by simp

section \<open>The order of the output\<close>

text \<open>
  C5.  For every input \<open>b\<close> the first event of the run is the write of the prompt
  \<open>Enter a number: \<close> (which holds no newline), the second is the read of \<open>b\<close>, and
  all later events are writes; their text is the five lines \<open>Hello 5\<close> to \<open>Hello 9\<close>,
  then the one line \<open>Big number!\<close> or \<open>Small number!\<close>, then one last line that
  begins with \<open>Array values: \<close> and holds no newline before its end.
\<close>

theorem stdout_order:
  "\<exists>s ws rest.
     main junk b = Inr (s, 0) \<and>
     io s = Cout ''Enter a number: '' # Cin b # map Cout ws \<and>
     stdout_text (io s) = ''Enter a number: '' @ concat ws \<and>
     concat ws =
       ''Hello 5'' @ endl @ ''Hello 6'' @ endl @ ''Hello 7'' @ endl @ ''Hello 8'' @ endl @
       ''Hello 9'' @ endl @
       (if 10 < sint b then ''Big number!'' else ''Small number!'') @ endl @
       ''Array values: '' @ rest @ endl \<and>
     CHR 0x0A \<notin> set rest"
proof -
  obtain j0 j1 j2 where j: "junk = (j0, j1, j2)"
    by (cases junk) auto
  let ?t0 = "show_int (square b)"
  let ?t1 = "show_int (square (1 + b))"
  let ?t2 = "show_int (square (2 + b))"
  let ?line = "if 10 < sint b then ''Big number!'' else ''Small number!''"
  let ?ws = "[''Hello'', '' '', ''5'', endl, ''Hello'', '' '', ''6'', endl,
              ''Hello'', '' '', ''7'', endl, ''Hello'', '' '', ''8'', endl,
              ''Hello'', '' '', ''9'', endl, ?line, endl,
              ''Array values: '', ?t0, '' '', ?t1, '' '', ?t2, '' '', endl]"
  let ?rest = "?t0 @ '' '' @ ?t1 @ '' '' @ ?t2 @ '' ''"
  let ?s = "\<lparr>a = 10, arr = [square b, square (1 + b), square (2 + b)], msg = ''Hello'',
             io = Cout ''Enter a number: '' # Cin b # map Cout ?ws,
             acc = [Wr 0, Wr 1, Wr 2, Rd 0, Rd 1, Rd 2]\<rparr>"
  have m: "main junk b = Inr (?s, 0)"
    unfolding j main_eq by simp
  have i: "io ?s = Cout ''Enter a number: '' # Cin b # map Cout ?ws"
    by simp
  have c: "concat ?ws =
       ''Hello 5'' @ endl @ ''Hello 6'' @ endl @ ''Hello 7'' @ endl @ ''Hello 8'' @ endl @
       ''Hello 9'' @ endl @ ?line @ endl @ ''Array values: '' @ ?rest @ endl"
    by simp
  have t: "stdout_text (io ?s) = ''Enter a number: '' @ concat ?ws"
    unfolding i by (simp add: stdout_text_def)
  have n: "CHR 0x0A \<notin> set ?rest"
    using show_int_no_sep [of "square b"] show_int_no_sep [of "square (1 + b)"]
      show_int_no_sep [of "square (2 + b)"]
    by simp
  show ?thesis
    using m i t c n by (intro exI [of _ ?s] exI [of _ ?ws] exI [of _ ?rest] conjI)
qed

theorem stdout_order_witness:
  "\<exists>s. main (1, 2, 3) 3 = Inr (s, 0) \<and>
     stdout_text (io s) =
       ''Enter a number: Hello 5'' @ endl @ ''Hello 6'' @ endl @ ''Hello 7'' @ endl @
       ''Hello 8'' @ endl @ ''Hello 9'' @ endl @ ''Small number!'' @ endl @
       ''Array values: 9 16 25 '' @ endl"
proof -
  obtain s where m: "main (1, 2, 3) 3 = Inr (s, 0)"
    using stdout_order [of "(1, 2, 3)" 3] by blast
  then have "stdout_text (io s) =
       ''Enter a number: Hello 5'' @ endl @ ''Hello 6'' @ endl @ ''Hello 7'' @ endl @
       ''Hello 8'' @ endl @ ''Hello 9'' @ endl @ ''Small number!'' @ endl @
       ''Array values: 9 16 25 '' @ endl"
    unfolding main_at_3 by (auto simp: stdout_text_def)
  then show ?thesis using m by simp
qed

section \<open>The last line of the output\<close>

text \<open>
  C6.  For every input \<open>b\<close> the output ends, after a newline, with the label
  \<open>Array values: \<close>, the three elements of \<open>arr\<close> in index order, each printed as an
  \<open>int\<close> and followed by one space, and a newline.  Each printed element is a
  non-empty string of decimal digits and at most a minus sign, so it holds neither a
  space nor a newline: the line has exactly three space-separated fields.
\<close>

theorem final_line:
  "\<exists>s pre v0 v1 v2.
     main junk b = Inr (s, 0) \<and> arr s = [v0, v1, v2] \<and>
     stdout_text (io s) =
       pre @ endl @
       ''Array values: '' @ show_int v0 @ '' '' @ show_int v1 @ '' '' @ show_int v2 @ '' '' @
       endl \<and>
     list_all (\<lambda>v. show_int v \<noteq> [] \<and> CHR '' '' \<notin> set (show_int v) \<and>
                   CHR 0x0A \<notin> set (show_int v) \<and>
                   set (show_int v) \<subseteq> insert CHR ''-'' (set ''0123456789''))
       [v0, v1, v2]"
proof -
  obtain j0 j1 j2 where j: "junk = (j0, j1, j2)"
    by (cases junk) auto
  let ?line = "if 10 < sint b then ''Big number!'' else ''Small number!''"
  let ?pre = "''Enter a number: '' @
       ''Hello 5'' @ endl @ ''Hello 6'' @ endl @ ''Hello 7'' @ endl @ ''Hello 8'' @ endl @
       ''Hello 9'' @ endl @ ?line"
  obtain s where m: "main junk b = Inr (s, 0)"
    and ar: "arr s = [square b, square (1 + b), square (2 + b)]"
    and t: "stdout_text (io s) = ?pre @ endl @
       ''Array values: '' @ show_int (square b) @ '' '' @ show_int (square (1 + b)) @ '' '' @
       show_int (square (2 + b)) @ '' '' @ endl"
    unfolding j main_eq by (simp add: stdout_text_def)
  have c: "list_all (\<lambda>v. show_int v \<noteq> [] \<and> CHR '' '' \<notin> set (show_int v) \<and>
                   CHR 0x0A \<notin> set (show_int v) \<and>
                   set (show_int v) \<subseteq> insert CHR ''-'' (set ''0123456789''))
       [square b, square (1 + b), square (2 + b)]"
  proof -
    have "show_int v \<noteq> [] \<and> CHR '' '' \<notin> set (show_int v) \<and>
          CHR 0x0A \<notin> set (show_int v) \<and>
          set (show_int v) \<subseteq> insert CHR ''-'' (set ''0123456789'')" for v
      using show_int_chars [of v] show_int_no_sep [of v] by (intro conjI) (erule conjE, assumption)+
    then show ?thesis
      by (simp only: list.pred_inject simp_thms)
  qed
  show ?thesis
    using m ar t c
    by (intro exI [of _ s] exI [of _ ?pre] exI [of _ "square b"] exI [of _ "square (1 + b)"]
        exI [of _ "square (2 + b)"] conjI)
qed

theorem final_line_witness:
  "\<exists>s pre. main (1, 2, 3) 3 = Inr (s, 0) \<and> arr s = [9, 16, 25] \<and>
     stdout_text (io s) = pre @ endl @ ''Array values: 9 16 25 '' @ endl"
proof -
  obtain s pre v0 v1 v2 where m: "main (1, 2, 3) 3 = Inr (s, 0)" and ar: "arr s = [v0, v1, v2]"
    and t: "stdout_text (io s) =
       pre @ endl @
       ''Array values: '' @ show_int v0 @ '' '' @ show_int v1 @ '' '' @ show_int v2 @ '' '' @
       endl"
    using final_line [of "(1, 2, 3)" 3] by blast
  have "arr s = [9, 16, 25]"
    using m unfolding main_at_3 by auto
  then have "v0 = 9" "v1 = 16" "v2 = 25"
    using ar by simp_all
  then show ?thesis
    using m ar t by (simp add: show_int_samples)
qed

section \<open>Termination and exit code\<close>

text \<open>
  C7.  For every input \<open>b\<close> (and whatever the array held before) \<open>main\<close> returns,
  its result is 0, and it does not end in an error.
\<close>

theorem main_returns_0:
  "(\<exists>s. main junk b = Inr (s, 0)) \<and> (\<forall>e. main junk b \<noteq> Inl e)"
proof -
  obtain j0 j1 j2 where j: "junk = (j0, j1, j2)"
    by (cases junk) auto
  show ?thesis
    unfolding j main_eq by simp
qed

theorem main_returns_0_witness:
  "(\<exists>s. main (0, 0, 0) 2147483647 = Inr (s, 0)) \<and> main (0, 0, 0) 2147483647 \<noteq> Inl OutOfBounds"
  using main_returns_0 [of "(0, 0, 0)" 2147483647] by simp

section \<open>The accesses to the array\<close>

text \<open>
  C8.  For every input \<open>b\<close> no subscript of the run is out of bounds (the run ends
  without the error), the array has three cells at the start, after the fill loop,
  after the message loop, after the branch and at the end, and the subscripts applied
  to it are, in order: the writes at 0, 1, 2 (all of them in the fill loop), then the
  reads at 0, 1, 2.  So every cell is written exactly once, and before it is read.
  The writes do store: whatever the cells held at the declaration, after the fill loop
  they hold the three squares, they hold them unchanged until the end, and the values
  that the printing loop reads and prints are these squares.  A write at a subscript
  within bounds replaces that cell by the value written and logs the subscript; a read
  within bounds returns the cell and logs the subscript.
  No operation of the program changes the length of the array: writing a cell keeps
  it, and reading, \<open>cout\<close>, \<open>cin\<close>, the body of the message loop and the branch leave
  the array as it is.  A subscript of \<open>-1\<close> or 3 would be the error.
\<close>

theorem arr_access_safety:
  "\<exists>s1 s2 s3 s4.
     main_fill junk b = Inr s1 \<and> main_while junk b = Inr s2 \<and>
     main_branch junk b = Inr s3 \<and> main junk b = Inr (s4, 0) \<and>
     map (length \<circ> arr) [init junk, s1, s2, s3, s4] = [3, 3, 3, 3, 3] \<and>
     map acc [init junk, s1, s2, s3, s4] =
       [[], [Wr 0, Wr 1, Wr 2], [Wr 0, Wr 1, Wr 2], [Wr 0, Wr 1, Wr 2],
        [Wr 0, Wr 1, Wr 2, Rd 0, Rd 1, Rd 2]] \<and>
     arr (init junk) = [fst junk, fst (snd junk), snd (snd junk)] \<and>
     arr s1 = map (\<lambda>i. square (i + b)) [0, 1, 2] \<and>
     arr s2 = arr s1 \<and> arr s3 = arr s1 \<and> arr s4 = arr s1 \<and>
     io s4 = io s3 @
       [Cout ''Array values: '',
        Cout (show_int (square (0 + b))), Cout '' '',
        Cout (show_int (square (1 + b))), Cout '' '',
        Cout (show_int (square (2 + b))), Cout '' '',
        Cout endl] \<and>
     (0 \<le> sint i \<and> sint i < int (length (arr s)) \<longrightarrow>
        arr_write i v s =
          Inr (s\<lparr>arr := (arr s)[nat (sint i) := v], acc := acc s @ [Wr i]\<rparr>) \<and>
        arr_read i s = Inr (arr s ! nat (sint i), s\<lparr>acc := acc s @ [Rd i]\<rparr>)) \<and>
     length (arr (case arr_write i v s of Inl e \<Rightarrow> s | Inr s' \<Rightarrow> s')) = length (arr s) \<and>
     arr (case arr_read i s of Inl e \<Rightarrow> s | Inr (v', s') \<Rightarrow> s') = arr s \<and>
     arr (cout t s) = arr s \<and> arr (cin v s) = arr s \<and> arr (while_body s) = arr s \<and>
     arr (branch b s) = arr s \<and>
     arr_write (- 1) v s = Inl OutOfBounds \<and> arr_read (- 1) s = Inl OutOfBounds \<and>
     arr_write 3 v (init junk) = Inl OutOfBounds \<and> arr_read 3 (init junk) = Inl OutOfBounds"
proof -
  obtain j0 j1 j2 where j: "junk = (j0, j1, j2)"
    by (cases junk) auto
  let ?sq = "[square b, square (1 + b), square (2 + b)]"
  let ?io1 = "[Cout ''Enter a number: '', Cin b]"
  let ?io2 = "?io1 @ [Cout ''Hello'', Cout '' '', Cout ''5'', Cout endl,
                Cout ''Hello'', Cout '' '', Cout ''6'', Cout endl,
                Cout ''Hello'', Cout '' '', Cout ''7'', Cout endl,
                Cout ''Hello'', Cout '' '', Cout ''8'', Cout endl,
                Cout ''Hello'', Cout '' '', Cout ''9'', Cout endl]"
  let ?io3 = "?io2 @ [Cout (if 10 < sint b then ''Big number!'' else ''Small number!''), Cout endl]"
  let ?io4 = "?io3 @ [Cout ''Array values: '',
                Cout (show_int (square b)), Cout '' '',
                Cout (show_int (square (1 + b))), Cout '' '',
                Cout (show_int (square (2 + b))), Cout '' '',
                Cout endl]"
  let ?s1 = "\<lparr>a = 5, arr = ?sq, msg = ''Hello'', io = ?io1, acc = [Wr 0, Wr 1, Wr 2]\<rparr>"
  let ?s2 = "\<lparr>a = 10, arr = ?sq, msg = ''Hello'', io = ?io2, acc = [Wr 0, Wr 1, Wr 2]\<rparr>"
  let ?s3 = "\<lparr>a = 10, arr = ?sq, msg = ''Hello'', io = ?io3, acc = [Wr 0, Wr 1, Wr 2]\<rparr>"
  let ?s4 = "\<lparr>a = 10, arr = ?sq, msg = ''Hello'', io = ?io4,
              acc = [Wr 0, Wr 1, Wr 2, Rd 0, Rd 1, Rd 2]\<rparr>"
  have q: "main_fill junk b = Inr ?s1" "main_while junk b = Inr ?s2"
    "main_branch junk b = Inr ?s3" "main junk b = Inr (?s4, 0)"
    unfolding j main_fill_eq main_while_eq main_branch_eq main_eq by simp_all
  have l: "map (length \<circ> arr) [init junk, ?s1, ?s2, ?s3, ?s4] = [3, 3, 3, 3, 3]"
    unfolding j by (simp add: init_def)
  have g: "map acc [init junk, ?s1, ?s2, ?s3, ?s4] =
       [[], [Wr 0, Wr 1, Wr 2], [Wr 0, Wr 1, Wr 2], [Wr 0, Wr 1, Wr 2],
        [Wr 0, Wr 1, Wr 2, Rd 0, Rd 1, Rd 2]]"
    unfolding j by (simp add: init_def)
  have c0: "arr (init junk) = [fst junk, fst (snd junk), snd (snd junk)]"
    unfolding j by (simp add: init_def)
  have c1: "arr ?s1 = map (\<lambda>i. square (i + b)) [0, 1, 2]"
    by simp
  have c2: "arr ?s2 = arr ?s1" "arr ?s3 = arr ?s1" "arr ?s4 = arr ?s1"
    by simp_all
  have p: "io ?s4 = io ?s3 @
       [Cout ''Array values: '',
        Cout (show_int (square (0 + b))), Cout '' '',
        Cout (show_int (square (1 + b))), Cout '' '',
        Cout (show_int (square (2 + b))), Cout '' '',
        Cout endl]"
    by simp
  have st: "0 \<le> sint i \<and> sint i < int (length (arr s)) \<longrightarrow>
        arr_write i v s =
          Inr (s\<lparr>arr := (arr s)[nat (sint i) := v], acc := acc s @ [Wr i]\<rparr>) \<and>
        arr_read i s = Inr (arr s ! nat (sint i), s\<lparr>acc := acc s @ [Rd i]\<rparr>)"
    by (simp add: arr_write_def arr_read_def)
  have w: "length (arr (case arr_write i v s of Inl e \<Rightarrow> s | Inr s' \<Rightarrow> s')) = length (arr s)"
    by (simp add: arr_write_def)
  have r: "arr (case arr_read i s of Inl e \<Rightarrow> s | Inr (v', s') \<Rightarrow> s') = arr s"
    by (simp add: arr_read_def)
  have o: "arr (cout t s) = arr s" "arr (cin v s) = arr s" "arr (while_body s) = arr s"
    "arr (branch b s) = arr s"
    by (simp_all add: cout_def cin_def while_body_def branch_def)
  have e: "arr_write (- 1) v s = Inl OutOfBounds" "arr_read (- 1) s = Inl OutOfBounds"
    "arr_write 3 v (init junk) = Inl OutOfBounds" "arr_read 3 (init junk) = Inl OutOfBounds"
    unfolding j by (simp_all add: arr_write_def arr_read_def init_def)
  show ?thesis
    by (intro exI [of _ ?s1] exI [of _ ?s2] exI [of _ ?s3] exI [of _ ?s4] conjI)
      (fact q l g c0 c1 c2 p st w r o e)+
qed

theorem arr_access_safety_witness:
  "0 \<le> sint (0 :: int32) \<and> sint (0 :: int32) < int (length (arr (init (1, 2, 3)))) \<and>
   arr_write 0 7 (init (1, 2, 3)) =
     Inr \<lparr>a = 5, arr = [7, 2, 3], msg = ''Hello'', io = [], acc = [Wr 0]\<rparr> \<and>
   arr_read 0 (init (1, 2, 3)) =
     Inr (1, \<lparr>a = 5, arr = [1, 2, 3], msg = ''Hello'', io = [], acc = [Rd 0]\<rparr>) \<and>
   (\<exists>s. main (1, 2, 3) 3 = Inr (s, 0) \<and> arr s = [9, 16, 25] \<and>
      acc s = [Wr 0, Wr 1, Wr 2, Rd 0, Rd 1, Rd 2])"
  using arr_access_safety [where junk = "(1, 2, 3)" and b = 3 and i = 0 and v = 7
      and s = "init (1, 2, 3)" and t = "''Hello''"]
  by (elim exE conjE) (simp add: init_def square_def)

section \<open>Determinism\<close>

text \<open>
  C9.  The run is a function of the input \<open>b\<close> alone: two runs on the same \<open>b\<close>, with
  whatever indeterminate values in the cells of the uninitialised array, both end with
  result 0 and have the same trace of events, hence the same output text.  The trace
  holds exactly one read, of \<open>b\<close>; every other event is a write to standard output.
\<close>

theorem main_deterministic:
  "\<exists>s s'. main junk b = Inr (s, 0) \<and> main junk' b = Inr (s', 0) \<and> io s = io s' \<and>
     stdout_text (io s) = stdout_text (io s') \<and>
     filter (\<lambda>e. case e of Cin v \<Rightarrow> True | Cout t \<Rightarrow> False) (io s) = [Cin b]"
proof -
  obtain j0 j1 j2 where j: "junk = (j0, j1, j2)"
    by (cases junk) auto
  obtain k0 k1 k2 where k: "junk' = (k0, k1, k2)"
    by (cases junk') auto
  show ?thesis
    unfolding j k main_eq by simp
qed

theorem main_deterministic_witness:
  "\<exists>s s'. main (1, 2, 3) 3 = Inr (s, 0) \<and> main (4, 5, 6) 3 = Inr (s', 0) \<and>
     stdout_text (io s) = stdout_text (io s') \<and>
     filter (\<lambda>e. case e of Cin v \<Rightarrow> True | Cout t \<Rightarrow> False) (io s) = [Cin 3]"
  using main_deterministic [of "(1, 2, 3)" 3 "(4, 5, 6)"] by blast

section \<open>The counter after the message loop\<close>

text \<open>
  C10.  For every input \<open>b\<close> the counter \<open>a\<close> is 5 when the message loop is entered
  and exactly 10 when it ends, and it is still 10 after the branch and at the end of
  \<open>main\<close>.  Nothing that runs after the loop assigns to it: the branch, \<open>cout\<close>,
  reading a cell and the printing loop leave \<open>a\<close> as it is.
\<close>

theorem counter_after_while:
  "\<exists>s1 s2 s3 s4.
     main_fill junk b = Inr s1 \<and> main_while junk b = Inr s2 \<and> s2 = while_loop s1 \<and>
     main_branch junk b = Inr s3 \<and> main junk b = Inr (s4, 0) \<and>
     a s1 = 5 \<and> a s2 = 10 \<and> a s3 = 10 \<and> a s4 = 10 \<and>
     a (branch b s) = a s \<and> a (cout t s) = a s \<and>
     a (case arr_read i s of Inl e \<Rightarrow> s | Inr (v, s') \<Rightarrow> s') = a s \<and>
     a (case print_loop i s of Inl e \<Rightarrow> s | Inr s' \<Rightarrow> s') = a s"
proof -
  obtain j0 j1 j2 where j: "junk = (j0, j1, j2)"
    by (cases junk) auto
  let ?s1 = "\<lparr>a = 5, arr = [square b, square (1 + b), square (2 + b)], msg = ''Hello'',
          io = [Cout ''Enter a number: '', Cin b], acc = [Wr 0, Wr 1, Wr 2]\<rparr>"
  have q1: "main_fill junk b = Inr ?s1"
    unfolding j by (rule main_fill_eq)
  have q2: "main_while junk b = Inr (while_loop ?s1)"
    by (simp add: main_while_def q1)
  have a2: "a (while_loop ?s1) = 10"
    by (simp add: while_loop_5 while_iter_5)
  obtain s3 s4 where q3: "main_branch junk b = Inr s3" "main junk b = Inr (s4, 0)"
    and a3: "a s3 = 10" "a s4 = 10"
    unfolding j main_branch_eq main_eq by simp
  have f: "a (branch b s) = a s" "a (cout t s) = a s"
    "a (case arr_read i s of Inl e \<Rightarrow> s | Inr (v, s') \<Rightarrow> s') = a s"
    by (simp_all add: branch_def cout_def arr_read_def)
  have a1: "a ?s1 = 5"
    by simp
  show ?thesis
    by (intro exI [of _ ?s1] exI [of _ "while_loop ?s1"] exI [of _ s3] exI [of _ s4] conjI)
      (fact q1 q2 q3 a1 a2 a3 f print_loop_frame refl)+
qed

theorem counter_after_while_witness:
  "\<exists>s2 s4. main_while (1, 2, 3) 3 = Inr s2 \<and> main (1, 2, 3) 3 = Inr (s4, 0) \<and>
     a s2 = 10 \<and> a s4 = 10"
  using counter_after_while [where junk = "(1, 2, 3)" and b = 3 and i = 0
      and s = "init (1, 2, 3)" and t = "''Hello''"]
  by (elim exE conjE) simp

end
